theory Spec2Isabelle
  imports Main "HOL-Library.Word"
begin

section \<open>Data model of \<^verbatim>\<open>main.go\<close>\<close>

text \<open>
  Go's \<^verbatim>\<open>int\<close> (on the 64-bit targets) and \<^verbatim>\<open>time.Duration\<close> (an \<^verbatim>\<open>int64\<close>) are
  64-bit two's complement integers: \<open>+\<close> wraps, \<open>sint\<close> reads the signed value.
  A Go \<^verbatim>\<open>string\<close> is a byte sequence, a slice is a list; the \<^verbatim>\<open>nil\<close> slice and the empty
  slice are both \<open>[]\<close> (they agree on \<^verbatim>\<open>len\<close> and \<^verbatim>\<open>range\<close>, the only operations the
  program applies to them).
\<close>

type_synonym go_int = "64 word"
type_synonym Duration = "64 word"

text \<open>
  \<^verbatim>\<open>len(x)\<close> as a Go \<^verbatim>\<open>int\<close>. The length of a Go string or slice always fits an
  \<^verbatim>\<open>int\<close>, so the conversion is exact on every value the program can hold.
\<close>

definition len :: "'a list \<Rightarrow> go_int" where
  "len xs = of_nat (length xs)"

text \<open>An \<^verbatim>\<open>error\<close> value, known by the message its \<^verbatim>\<open>Error()\<close> method returns.\<close>

datatype error = Error string

record Request =
  Hash :: string
  Token :: string

record Column =
  Name :: string
  Type :: string
  Position :: go_int

record Header =
  Columns :: "Column list"

record Data =
  Header :: Header
  Records :: "string list list"

record Meta =
  NextToken :: string

record ResultSet =
  Meta :: Meta
  Data :: Data

section \<open>The environment\<close>

text \<open>
  What the outside world decides during one call of \<^verbatim>\<open>consumePage\<close>, in the order the
  function asks for it: the error of \<^verbatim>\<open>json.Marshal\<close>, the error of \<^verbatim>\<open>http.Post\<close>, the
  value of \<^verbatim>\<open>t2.Sub(t1)\<close>, the outcome of decoding the response body (an error or the
  decoded \<^verbatim>\<open>ResultSet\<close>) and the value of \<^verbatim>\<open>t3.Sub(t2)\<close>.
\<close>

record Exchange =
  marshalErr :: "error option"
  postErr :: "error option"
  requestTime :: Duration
  decoded :: "error + ResultSet"
  unmarshalTime :: Duration

text \<open>
  The observable state: every call of \<^verbatim>\<open>consumePage\<close> made so far (url, hash, token),
  every \<^verbatim>\<open>http.Post\<close> issued so far (target, content type, the request that was
  marshalled into the body) and the bytes written to standard output. The environment is
  a function \<open>srv\<close> giving the exchange of the \<open>i\<close>-th call of \<^verbatim>\<open>consumePage\<close>.
\<close>

record World =
  fetches :: "(string \<times> string \<times> string) list"
  posts :: "(string \<times> string \<times> Request) list"
  stdout :: string

type_synonym PageResult = "string \<times> go_int \<times> Duration \<times> Duration \<times> error option"

type_synonym AllPagesResult = "go_int \<times> go_int list \<times> Duration \<times> Duration \<times> error option"

section \<open>\<^verbatim>\<open>consumePage\<close>\<close>

definition consumePage ::
  "(nat \<Rightarrow> Exchange) \<Rightarrow> string \<Rightarrow> string \<Rightarrow> string \<Rightarrow> World \<Rightarrow> PageResult \<times> World" where
  "consumePage srv url hash token w =
     (let ex = srv (length (fetches w));
          w1 = w\<lparr>fetches := fetches w @ [(url, hash, token)]\<rparr>;
          r = \<lparr>Hash = hash, Token = token\<rparr>
      in case marshalErr ex of
           Some err \<Rightarrow> (([], 0, 0, 0, Some err), w1)
         | None \<Rightarrow>
            (let w2 = w1\<lparr>posts := posts w1 @ [(url @ ''/page'', ''application/json'', r)]\<rparr>
             in case postErr ex of
                  Some err \<Rightarrow> (([], 0, 0, 0, Some err), w2)
                | None \<Rightarrow>
                   (case decoded ex of
                      Inl err \<Rightarrow> (([], 0, 0, 0, Some err), w2)
                    | Inr result \<Rightarrow>
                       ((NextToken (Meta result), len (Records (Data result)),
                         requestTime ex, unmarshalTime ex, None), w2))))"

section \<open>\<^verbatim>\<open>consumeAllPages\<close>\<close>

text \<open>
  The local variables of the loop: \<^verbatim>\<open>pageCount\<close>, \<^verbatim>\<open>recordCounts\<close>,
  \<^verbatim>\<open>totalDurationRequest\<close>, \<^verbatim>\<open>totalUnmarshalDuration\<close> and \<^verbatim>\<open>nextToken\<close>.
\<close>

type_synonym Locals = "go_int \<times> go_int list \<times> Duration \<times> Duration \<times> string"

text \<open>
  One pass through \<^verbatim>\<open>for len(nextToken) > 0 { ... }\<close>: \<open>Inl\<close> is a \<^verbatim>\<open>return\<close> of the
  function (the error return inside the body, or the return after the loop once the
  condition is false), \<open>Inr\<close> the locals and the world at the next test of the condition.
  The condition is decided on the length of the string itself, which in Go always fits an
  \<^verbatim>\<open>int\<close>; \<^verbatim>\<open>pageCount++\<close> and the two \<^verbatim>\<open>+=\<close> on durations wrap as Go's do.
\<close>

definition loopBody ::
  "(nat \<Rightarrow> Exchange) \<Rightarrow> string \<Rightarrow> string \<Rightarrow> Locals \<times> World
     \<Rightarrow> (AllPagesResult \<times> World) + (Locals \<times> World)" where
  "loopBody srv url hash c =
     (case c of
        ((pageCount, recordCounts, totalDurationRequest, totalUnmarshalDuration, nextToken), w) \<Rightarrow>
        if length nextToken > 0 then
          (case consumePage srv url hash nextToken w of
             ((token, recordCount, requestDuration, unMarshalDuration, err), w') \<Rightarrow>
               (case err of
                  Some e \<Rightarrow> Inl ((0, [], 0, 0, Some e), w')
                | None \<Rightarrow>
                    Inr ((pageCount + 1,
                          recordCounts @ [recordCount],
                          totalDurationRequest + requestDuration,
                          totalUnmarshalDuration + unMarshalDuration,
                          token), w')))
        else
          Inl ((pageCount, recordCounts, totalDurationRequest, totalUnmarshalDuration, None), w))"

text \<open>
  The loop has no bound of its own: a server that always answers with a non-empty next
  token keeps it running. Not returning is the value \<open>None\<close>.
\<close>

partial_function (option) pagesLoop ::
  "(nat \<Rightarrow> Exchange) \<Rightarrow> string \<Rightarrow> string \<Rightarrow> Locals \<times> World \<Rightarrow> (AllPagesResult \<times> World) option" where
  "pagesLoop srv url hash c =
     (case loopBody srv url hash c of
        Inl r \<Rightarrow> Some r
      | Inr c' \<Rightarrow> pagesLoop srv url hash c')"

definition initLocals :: "string \<Rightarrow> Locals" where
  "initLocals firstToken = (0, [], 0, 0, firstToken)"

definition consumeAllPages ::
  "(nat \<Rightarrow> Exchange) \<Rightarrow> string \<Rightarrow> string \<Rightarrow> string \<Rightarrow> World \<Rightarrow> (AllPagesResult \<times> World) option" where
  "consumeAllPages srv url hash firstToken w =
     pagesLoop srv url hash (initLocals firstToken, w)"

section \<open>\<^verbatim>\<open>printConsumption\<close>\<close>

text \<open>
  \<^verbatim>\<open>fmt.Printf\<close> appends to standard output. The verb \<^verbatim>\<open>%v\<close> prints a string as it
  is, an \<^verbatim>\<open>error\<close> by its \<^verbatim>\<open>Error()\<close> message, an \<^verbatim>\<open>int\<close> in signed decimal and a
  \<^verbatim>\<open>time.Duration\<close> by its \<^verbatim>\<open>String()\<close> method. The last belongs to the standard
  library and is a parameter, \<open>durationString\<close>, of everything that prints.
\<close>

definition Print :: "string \<Rightarrow> World \<Rightarrow> World" where
  "Print s w = w\<lparr>stdout := stdout w @ s\<rparr>"

definition newline :: string where
  "newline = [CHR 0x0A]"

function decimal :: "nat \<Rightarrow> string" where
  "decimal n =
     (if n < 10 then [''0123456789'' ! n]
      else decimal (n div 10) @ [''0123456789'' ! (n mod 10)])"
  by pat_completeness auto
termination
  by (relation "measure (\<lambda>n. n)") auto

declare decimal.simps [simp del]

definition formatInt :: "go_int \<Rightarrow> string" where
  "formatInt i = (if sint i < 0 then ''-'' @ decimal (nat (- sint i)) else decimal (nat (sint i)))"

fun errorString :: "error \<Rightarrow> string" where
  "errorString (Error msg) = msg"

text \<open>The value of \<^verbatim>\<open>records\<close> after the \<^verbatim>\<open>range\<close> loop over \<^verbatim>\<open>recordCounts\<close>.\<close>

definition sumRecords :: "go_int list \<Rightarrow> go_int" where
  "sumRecords recordCounts = foldl (\<lambda>records recordCount. records + recordCount) 0 recordCounts"

definition printConsumption ::
  "(Duration \<Rightarrow> string) \<Rightarrow> string \<Rightarrow> string \<Rightarrow> go_int \<Rightarrow> go_int list \<Rightarrow> Duration \<Rightarrow> Duration
     \<Rightarrow> error option \<Rightarrow> World \<Rightarrow> World" where
  "printConsumption durationString hash firstToken pageCount recordCounts
       totalDurationRequest totalUnmarshalDuration err w =
     (let w1 = Print (''Hash: '' @ hash @ '', First Token: '' @ firstToken @ newline) w
      in case err of
           Some e \<Rightarrow> Print (''Error: '' @ errorString e @ newline) w1
         | None \<Rightarrow>
            (let records = sumRecords recordCounts;
                 w2 = Print (''  Pages: '' @ formatInt pageCount @ newline) w1;
                 w3 = Print (''  Records: '' @ formatInt records @ newline) w2;
                 w4 = Print (''  Duration to retrieve pages: ''
                             @ durationString totalDurationRequest @ newline) w3
             in Print (''  Duration to unmarshal pages: ''
                       @ durationString totalUnmarshalDuration @ newline) w4))"

section \<open>\<^verbatim>\<open>main\<close>\<close>

text \<open>
  \<^verbatim>\<open>flag.String(name, value, usage)\<close> declares a string flag with the default \<open>value\<close>;
  after parsing it holds the value given on the command line, or the default when the flag
  was not given. \<open>args\<close> maps the name of each flag that was given to the value it was
  given.
\<close>

definition flagString :: "(string \<rightharpoonup> string) \<Rightarrow> string \<Rightarrow> string \<Rightarrow> string" where
  "flagString args name value = (case args name of None \<Rightarrow> value | Some v \<Rightarrow> v)"

text \<open>
  What \<^verbatim>\<open>flag.Parse()\<close> makes of the command line. The flags are declared on the default
  flag set, whose error handling is \<^verbatim>\<open>ExitOnError\<close>, so the call returns only for a
  command line it accepts:
  \<^item> \<open>HelpRequested\<close>: \<^verbatim>\<open>-h\<close> or \<^verbatim>\<open>-help\<close> is met; the library prints the usage to
    standard error and calls \<^verbatim>\<open>os.Exit(0)\<close>;
  \<^item> \<open>Refused\<close>: a flag that is not declared, a flag without its value or a malformed
    flag is met; the library prints the error and the usage to standard error and calls
    \<^verbatim>\<open>os.Exit(2)\<close>;
  \<^item> \<open>Accepted args\<close>: the call returns, the flags given are assigned.
  The parsing itself belongs to the standard library; its outcome is an input of \<open>main\<close>.
\<close>

datatype CommandLine = HelpRequested | Refused | Accepted "string \<rightharpoonup> string"

text \<open>
  How the program ends: inside \<^verbatim>\<open>flag.Parse()\<close> with the status the library exits with;
  in \<^verbatim>\<open>log.Fatal(v)\<close>, which logs \<open>v\<close> and calls \<^verbatim>\<open>os.Exit(1)\<close>; or by returning from
  \<^verbatim>\<open>main\<close>, exit status 0.
\<close>

datatype Exit = FlagExit nat | Fatal string | Returned

fun exitStatus :: "Exit \<Rightarrow> nat" where
  "exitStatus (FlagExit status) = status"
| "exitStatus (Fatal msg) = 1"
| "exitStatus Returned = 0"

definition main ::
  "(Duration \<Rightarrow> string) \<Rightarrow> (nat \<Rightarrow> Exchange) \<Rightarrow> CommandLine \<Rightarrow> World
     \<Rightarrow> (Exit \<times> World) option" where
  "main durationString srv commandLine w =
     (case commandLine of
        HelpRequested \<Rightarrow> Some (FlagExit 0, w)
      | Refused \<Rightarrow> Some (FlagExit 2, w)
      | Accepted args \<Rightarrow>
         (let url = flagString args ''url'' ''http://localhost:8090'';
              hash = flagString args ''hash'' [];
              firstToken = flagString args ''token'' []
          in if length url = 0 \<or> length hash = 0 \<or> length firstToken = 0 then
               Some (Fatal ''invalid arguments'', w)
             else
               (case consumeAllPages srv url hash firstToken w of
                  None \<Rightarrow> None
                | Some ((pageCount, recordCounts, totalDurationRequest, totalUnmarshalDuration, err),
                        w') \<Rightarrow>
                    Some (Returned,
                          printConsumption durationString hash firstToken pageCount recordCounts
                            totalDurationRequest totalUnmarshalDuration err w'))))"

section \<open>Runs of the loop\<close>

text \<open>
  The error of an exchange: that of the first stage that fails, in the order in which
  \<^verbatim>\<open>consumePage\<close> goes through the stages; \<open>None\<close> when all three succeed.
\<close>

definition exchangeError :: "Exchange \<Rightarrow> error option" where
  "exchangeError ex =
     (case marshalErr ex of
        Some e \<Rightarrow> Some e
      | None \<Rightarrow>
         (case postErr ex of
            Some e \<Rightarrow> Some e
          | None \<Rightarrow> (case decoded ex of Inl e \<Rightarrow> Some e | Inr r \<Rightarrow> None)))"

text \<open>
  \<open>served srv k rs\<close>: the exchanges \<open>k\<close>, \<open>k + 1\<close>, ... of the environment succeed in
  all three stages and deliver the pages \<open>rs\<close>, in this order.
\<close>

fun served :: "(nat \<Rightarrow> Exchange) \<Rightarrow> nat \<Rightarrow> ResultSet list \<Rightarrow> bool" where
  "served srv k [] = True"
| "served srv k (r # rs) =
     (marshalErr (srv k) = None \<and> postErr (srv k) = None \<and> decoded (srv k) = Inr r
      \<and> served srv (Suc k) rs)"

definition nextOf :: "ResultSet \<Rightarrow> string" where
  "nextOf r = NextToken (Meta r)"

definition recordsOf :: "ResultSet \<Rightarrow> go_int" where
  "recordsOf r = len (Records (Data r))"

text \<open>The calls of \<^verbatim>\<open>consumePage\<close> and of \<^verbatim>\<open>http.Post\<close> that fetching the tokens \<open>ts\<close> makes.\<close>

definition fetchesOf :: "string \<Rightarrow> string \<Rightarrow> string list \<Rightarrow> (string \<times> string \<times> string) list" where
  "fetchesOf url hash ts = map (\<lambda>t. (url, hash, t)) ts"

definition postsOf :: "string \<Rightarrow> string \<Rightarrow> string list \<Rightarrow> (string \<times> string \<times> Request) list" where
  "postsOf url hash ts =
     map (\<lambda>t. (url @ ''/page'', ''application/json'', \<lparr>Hash = hash, Token = t\<rparr>)) ts"

text \<open>The tokens of the calls of \<^verbatim>\<open>consumePage\<close> made after the world \<open>w\<close>, up to \<open>w'\<close>.\<close>

definition tokensFetched :: "World \<Rightarrow> World \<Rightarrow> string list" where
  "tokensFetched w w' = map (\<lambda>(url, hash, token). token) (drop (length (fetches w)) (fetches w'))"

text \<open>
  The step relation of the loop: from the locals and the world at one test of the loop
  condition to those at the next test.
\<close>

definition iterates ::
  "(nat \<Rightarrow> Exchange) \<Rightarrow> string \<Rightarrow> string \<Rightarrow> Locals \<times> World \<Rightarrow> Locals \<times> World \<Rightarrow> bool" where
  "iterates srv url hash c c' = (loopBody srv url hash c = Inr c')"

text \<open>
  Two exchanges that differ at most in the header of the decoded result set: the same
  errors, the same durations, and either the same decoding error or result sets with the
  same next token and the same records.
\<close>

definition sameButHeader :: "Exchange \<Rightarrow> Exchange \<Rightarrow> bool" where
  "sameButHeader a b =
     (marshalErr a = marshalErr b \<and> postErr a = postErr b
      \<and> requestTime a = requestTime b \<and> unmarshalTime a = unmarshalTime b
      \<and> (case (decoded a, decoded b) of
            (Inl e, Inl e') \<Rightarrow> e = e'
          | (Inr r, Inr r') \<Rightarrow> NextToken (Meta r) = NextToken (Meta r') \<and> Records (Data r) = Records (Data r')
          | _ \<Rightarrow> False))"

text \<open>The number that a string of decimal digits denotes.\<close>

definition digitValue :: "char \<Rightarrow> nat" where
  "digitValue c = of_char c - 48"

definition decimalValue :: "string \<Rightarrow> nat" where
  "decimalValue s = foldl (\<lambda>v c. 10 * v + digitValue c) 0 s"

section \<open>Sample environments\<close>

definition emptyWorld :: World where
  "emptyWorld = \<lparr>fetches = [], posts = [], stdout = []\<rparr>"

definition samplePage :: "Column list \<Rightarrow> nat \<Rightarrow> string \<Rightarrow> ResultSet" where
  "samplePage cols n tok =
     \<lparr>Meta = \<lparr>NextToken = tok\<rparr>,
      Data = \<lparr>Header = \<lparr>Columns = cols\<rparr>, Records = replicate n []\<rparr>\<rparr>"

definition delivered :: "ResultSet \<Rightarrow> Exchange" where
  "delivered r =
     \<lparr>marshalErr = None, postErr = None, requestTime = 7, decoded = Inr r, unmarshalTime = 2\<rparr>"

text \<open>Page 1 with 3 records and next token \<^verbatim>\<open>"abc"\<close>, then page 2 with 5 records and no next token.\<close>

definition scenarioServer :: "nat \<Rightarrow> Exchange" where
  "scenarioServer i =
     (if i = 0 then delivered (samplePage [] 3 ''abc'') else delivered (samplePage [] 5 []))"

text \<open>The same pages under another header.\<close>

definition headedServer :: "nat \<Rightarrow> Exchange" where
  "headedServer i =
     (if i = 0
      then delivered (samplePage [\<lparr>Name = ''id'', Type = ''int'', Position = 0\<rparr>] 3 ''abc'')
      else delivered (samplePage [\<lparr>Name = ''id'', Type = ''int'', Position = 0\<rparr>] 5 []))"

text \<open>A server whose every response body is not JSON.\<close>

definition malformedServer :: "nat \<Rightarrow> Exchange" where
  "malformedServer i =
     \<lparr>marshalErr = None, postErr = None, requestTime = 7,
      decoded = Inl (Error ''invalid character''), unmarshalTime = 2\<rparr>"

text \<open>Page 1 as in the scenario, then a connection that fails.\<close>

definition failingServer :: "nat \<Rightarrow> Exchange" where
  "failingServer i =
     (if i = 0 then delivered (samplePage [] 3 ''abc'')
      else \<lparr>marshalErr = None, postErr = Some (Error ''connection refused''), requestTime = 0,
            decoded = Inl (Error ''EOF''), unmarshalTime = 0\<rparr>)"

text \<open>A command line that gives \<^verbatim>\<open>-hash h -token t\<close> and no \<^verbatim>\<open>-url\<close>.\<close>

definition hashTokenArgs :: "string \<rightharpoonup> string" where
  "hashTokenArgs name =
     (if name = ''hash'' then Some ''h'' else if name = ''token'' then Some ''t'' else None)"

text \<open>A command line that gives \<^verbatim>\<open>-hash "" -token t\<close>.\<close>

definition emptyHashArgs :: "string \<rightharpoonup> string" where
  "emptyHashArgs name =
     (if name = ''hash'' then Some [] else if name = ''token'' then Some ''t'' else None)"

text \<open>A stand-in for \<^verbatim>\<open>Duration.String()\<close>: the count of nanoseconds.\<close>

definition nanoseconds :: "Duration \<Rightarrow> string" where
  "nanoseconds d = formatInt d @ ''ns''"

section \<open>Facts about consumePage\<close>

lemma consumePage_error:
  "snd (snd (snd (snd (fst (consumePage srv url hash token w))))) =
     exchangeError (srv (length (fetches w)))"
  by (simp add: consumePage_def exchangeError_def Let_def split: option.splits sum.splits)

lemma consumePage_failure:
  assumes "exchangeError (srv (length (fetches w))) = Some e"
  shows "\<exists>w'. consumePage srv url hash token w = (([], 0, 0, 0, Some e), w')
           \<and> fetches w' = fetches w @ [(url, hash, token)]
           \<and> stdout w' = stdout w"
  using assms
  by (simp add: consumePage_def exchangeError_def Let_def split: option.splits sum.splits)

lemma consumePage_success:
  assumes "served srv (length (fetches w)) [r]"
  shows "consumePage srv url hash token w =
     ((nextOf r, recordsOf r,
       requestTime (srv (length (fetches w))), unmarshalTime (srv (length (fetches w))), None),
      w\<lparr>fetches := fetches w @ fetchesOf url hash [token],
        posts := posts w @ postsOf url hash [token]\<rparr>)"
  using assms
  by (simp add: consumePage_def Let_def nextOf_def recordsOf_def fetchesOf_def postsOf_def)

lemma consumePage_fetches:
  "fetches (snd (consumePage srv url hash token w)) = fetches w @ [(url, hash, token)]"
  by (simp add: consumePage_def Let_def split: option.splits sum.splits)

lemma served_append:
  "served srv k (xs @ ys) = (served srv k xs \<and> served srv (k + length xs) ys)"
  by (induction xs arbitrary: k) auto

section \<open>Facts about the loop\<close>

lemma pagesLoop_return:
  "pagesLoop srv url hash ((pc, rcs, d1, d2, []), w) = Some ((pc, rcs, d1, d2, None), w)"
  by (subst pagesLoop.simps) (simp add: loopBody_def)

lemma pagesLoop_fail:
  assumes "tok \<noteq> []" "exchangeError (srv (length (fetches w))) = Some e"
  shows "\<exists>w'. pagesLoop srv url hash ((pc, rcs, d1, d2, tok), w) = Some ((0, [], 0, 0, Some e), w')
           \<and> fetches w' = fetches w @ fetchesOf url hash [tok]
           \<and> stdout w' = stdout w"
proof -
  from assms(2) consumePage_failure [where srv = srv and w = w and e = e and url = url and hash = hash and token = tok]
  obtain w' where "consumePage srv url hash tok w = (([], 0, 0, 0, Some e), w')"
    and "fetches w' = fetches w @ [(url, hash, tok)]" and "stdout w' = stdout w"
    by blast
  with assms(1) show ?thesis
    by (subst pagesLoop.simps) (simp add: loopBody_def fetchesOf_def)
qed

lemma pagesLoop_step:
  assumes "tok \<noteq> []" "served srv (length (fetches w)) [r]"
  shows "pagesLoop srv url hash ((pc, rcs, d1, d2, tok), w) =
         pagesLoop srv url hash
           ((pc + 1, rcs @ [recordsOf r], d1 + requestTime (srv (length (fetches w))),
             d2 + unmarshalTime (srv (length (fetches w))), nextOf r),
            w\<lparr>fetches := fetches w @ fetchesOf url hash [tok],
              posts := posts w @ postsOf url hash [tok]\<rparr>)"
  using assms(1)
  by (subst pagesLoop.simps) (simp add: loopBody_def consumePage_success [OF assms(2)])

lemma upt_shift:
  fixes f :: "nat \<Rightarrow> 64 word"
  shows "sum_list (map (\<lambda>i. f (k + i)) [0..<Suc n]) =
         f k + sum_list (map (\<lambda>i. f (Suc k + i)) [0..<n])"
proof -
  have "[0..<Suc n] = 0 # [Suc 0..<Suc n]"
    by (rule upt_conv_Cons) simp
  then have "[0..<Suc n] = 0 # map Suc [0..<n]"
    by (simp only: map_Suc_upt)
  then show ?thesis
    by (simp add: comp_def)
qed

lemma pagesLoop_advance:
  assumes "served srv (length (fetches w)) rs" "tok \<noteq> []" "\<forall>r \<in> set rs. nextOf r \<noteq> []"
  shows "\<exists>w'. pagesLoop srv url hash ((pc, rcs, d1, d2, tok), w) =
         pagesLoop srv url hash
           ((pc + of_nat (length rs), rcs @ map recordsOf rs,
             d1 + sum_list (map (\<lambda>i. requestTime (srv (length (fetches w) + i))) [0..<length rs]),
             d2 + sum_list (map (\<lambda>i. unmarshalTime (srv (length (fetches w) + i))) [0..<length rs]),
             last (tok # map nextOf rs)), w')
          \<and> fetches w' = fetches w @ fetchesOf url hash (butlast (tok # map nextOf rs))
          \<and> posts w' = posts w @ postsOf url hash (butlast (tok # map nextOf rs))
          \<and> stdout w' = stdout w"
  using assms
proof (induction rs arbitrary: pc rcs d1 d2 tok w)
  case Nil
  show ?case by (rule exI [of _ w]) (simp add: fetchesOf_def postsOf_def)
next
  case (Cons r rs)
  let ?k = "length (fetches w)"
  let ?w1 = "w\<lparr>fetches := fetches w @ fetchesOf url hash [tok],
              posts := posts w @ postsOf url hash [tok]\<rparr>"
  have k1: "length (fetches ?w1) = Suc ?k"
    by (simp add: fetchesOf_def)
  from Cons.prems have one: "served srv ?k [r]" and rest: "served srv (length (fetches ?w1)) rs"
    and nr: "nextOf r \<noteq> []" and all: "\<forall>r \<in> set rs. nextOf r \<noteq> []"
    by (simp_all add: fetchesOf_def)
  have step: "pagesLoop srv url hash ((pc, rcs, d1, d2, tok), w) =
         pagesLoop srv url hash
           ((pc + 1, rcs @ [recordsOf r], d1 + requestTime (srv ?k),
             d2 + unmarshalTime (srv ?k), nextOf r), ?w1)"
    using Cons.prems(2) one by (rule pagesLoop_step)
  from Cons.IH [OF rest nr all, of "pc + 1" "rcs @ [recordsOf r]" "d1 + requestTime (srv ?k)" "d2 + unmarshalTime (srv ?k)"]
  obtain w' where w': "pagesLoop srv url hash
           ((pc + 1, rcs @ [recordsOf r], d1 + requestTime (srv ?k),
             d2 + unmarshalTime (srv ?k), nextOf r), ?w1) =
         pagesLoop srv url hash
           ((pc + 1 + of_nat (length rs), (rcs @ [recordsOf r]) @ map recordsOf rs,
             d1 + requestTime (srv ?k) + sum_list (map (\<lambda>i. requestTime (srv (length (fetches ?w1) + i))) [0..<length rs]),
             d2 + unmarshalTime (srv ?k) + sum_list (map (\<lambda>i. unmarshalTime (srv (length (fetches ?w1) + i))) [0..<length rs]),
             last (nextOf r # map nextOf rs)), w')"
     and f: "fetches w' = fetches ?w1 @ fetchesOf url hash (butlast (nextOf r # map nextOf rs))"
     and p: "posts w' = posts ?w1 @ postsOf url hash (butlast (nextOf r # map nextOf rs))"
     and s: "stdout w' = stdout ?w1"
    by blast
  show ?case
    apply (rule exI [of _ w'])
    apply (simp only: step w' k1 length_Cons upt_shift [of "\<lambda>n. requestTime (srv n)"]
             upt_shift [of "\<lambda>n. unmarshalTime (srv n)"])
    apply (simp add: f p s add.assoc fetchesOf_def postsOf_def)
    done
qed

lemma pagesLoop_pages:
  assumes "served srv (length (fetches w)) (rs @ [r])" "tok \<noteq> []"
    "\<forall>r \<in> set rs. nextOf r \<noteq> []" "nextOf r = []"
  shows "\<exists>w'. pagesLoop srv url hash ((pc, rcs, d1, d2, tok), w) =
         Some ((pc + of_nat (length (rs @ [r])), rcs @ map recordsOf (rs @ [r]),
             d1 + sum_list (map (\<lambda>i. requestTime (srv (length (fetches w) + i))) [0..<length (rs @ [r])]),
             d2 + sum_list (map (\<lambda>i. unmarshalTime (srv (length (fetches w) + i))) [0..<length (rs @ [r])]),
             None), w')
          \<and> fetches w' = fetches w @ fetchesOf url hash (tok # map nextOf rs)
          \<and> posts w' = posts w @ postsOf url hash (tok # map nextOf rs)
          \<and> stdout w' = stdout w"
proof -
  from assms(1) have front: "served srv (length (fetches w)) rs"
    and lastp: "served srv (length (fetches w) + length rs) [r]"
    by (simp_all add: served_append)
  from pagesLoop_advance [OF front assms(2) assms(3), of url hash pc rcs d1 d2]
  obtain w1 where run: "pagesLoop srv url hash ((pc, rcs, d1, d2, tok), w) =
         pagesLoop srv url hash
           ((pc + of_nat (length rs), rcs @ map recordsOf rs,
             d1 + sum_list (map (\<lambda>i. requestTime (srv (length (fetches w) + i))) [0..<length rs]),
             d2 + sum_list (map (\<lambda>i. unmarshalTime (srv (length (fetches w) + i))) [0..<length rs]),
             last (tok # map nextOf rs)), w1)"
     and f: "fetches w1 = fetches w @ fetchesOf url hash (butlast (tok # map nextOf rs))"
     and p: "posts w1 = posts w @ postsOf url hash (butlast (tok # map nextOf rs))"
     and s: "stdout w1 = stdout w"
    by blast
  have k: "length (fetches w1) = length (fetches w) + length rs"
    by (simp add: f fetchesOf_def)
  have tok': "last (tok # map nextOf rs) \<noteq> []"
    using assms(2) assms(3) by (cases rs rule: rev_cases) auto
  have lastp': "served srv (length (fetches w1)) [r]"
    using lastp by (simp only: k)
  have bl: "butlast (tok # map nextOf rs) @ [last (tok # map nextOf rs)] = tok # map nextOf rs"
    by (rule append_butlast_last_id) simp
  let ?w2 = "w1\<lparr>fetches := fetches w1 @ fetchesOf url hash [last (tok # map nextOf rs)],
              posts := posts w1 @ postsOf url hash [last (tok # map nextOf rs)]\<rparr>"
  have "fetches ?w2 =
          fetches w @ fetchesOf url hash (butlast (tok # map nextOf rs) @ [last (tok # map nextOf rs)])"
    by (simp add: f fetchesOf_def)
  then have f2: "fetches ?w2 = fetches w @ fetchesOf url hash (tok # map nextOf rs)"
    by (simp only: bl)
  have "posts ?w2 =
          posts w @ postsOf url hash (butlast (tok # map nextOf rs) @ [last (tok # map nextOf rs)])"
    by (simp add: p postsOf_def)
  then have p2: "posts ?w2 = posts w @ postsOf url hash (tok # map nextOf rs)"
    by (simp only: bl)
  have s2: "stdout ?w2 = stdout w"
    by (simp add: s)
  have sums: "\<And>f :: nat \<Rightarrow> 64 word. sum_list (map f [0..<length (rs @ [r])]) =
      sum_list (map f [0..<length rs]) + f (length rs)"
    by simp
  have "pagesLoop srv url hash ((pc, rcs, d1, d2, tok), w) =
         Some ((pc + of_nat (length (rs @ [r])), rcs @ map recordsOf (rs @ [r]),
             d1 + sum_list (map (\<lambda>i. requestTime (srv (length (fetches w) + i))) [0..<length (rs @ [r])]),
             d2 + sum_list (map (\<lambda>i. unmarshalTime (srv (length (fetches w) + i))) [0..<length (rs @ [r])]),
             None), ?w2)"
    apply (simp only: run pagesLoop_step [OF tok' lastp'] assms(4) pagesLoop_return k sums)
    apply (simp add: add.assoc)
    done
  with f2 p2 s2 show ?thesis
    by blast
qed


lemma loopBody_continue:
  assumes "loopBody srv url hash ((pc, rcs, d1, d2, tok), w) = Inr ((pc', rcs', d1', d2', tok'), w')"
  shows "tok \<noteq> [] \<and> fetches w' = fetches w @ [(url, hash, tok)]
         \<and> pc' = pc + 1 \<and> (\<exists>n. rcs' = rcs @ [n])"
proof -
  obtain token recordCount requestDuration unMarshalDuration e w1
    where fields: "consumePage srv url hash tok w =
       ((token, recordCount, requestDuration, unMarshalDuration, e), w1)"
    by (metis prod_cases5 surj_pair)
  from consumePage_fetches [of srv url hash tok w] fields
  have "fetches w1 = fetches w @ [(url, hash, tok)]"
    by simp
  with assms fields show ?thesis
    by (auto simp: loopBody_def split: if_splits option.splits)
qed

lemma loopBody_return:
  assumes "loopBody srv url hash ((pc, rcs, d1, d2, tok), w) = Inl ((pc', rcs', d1', d2', err), w')"
  shows "(tok = [] \<and> w' = w \<and> pc' = pc \<and> rcs' = rcs \<and> d1' = d1 \<and> d2' = d2 \<and> err = None)
       \<or> (tok \<noteq> [] \<and> fetches w' = fetches w @ [(url, hash, tok)]
            \<and> pc' = 0 \<and> rcs' = [] \<and> d1' = 0 \<and> d2' = 0 \<and> err \<noteq> None)"
proof -
  obtain token recordCount requestDuration unMarshalDuration e w1
    where fields: "consumePage srv url hash tok w =
       ((token, recordCount, requestDuration, unMarshalDuration, e), w1)"
    by (metis prod_cases5 surj_pair)
  from consumePage_fetches [of srv url hash tok w] fields
  have "fetches w1 = fetches w @ [(url, hash, tok)]"
    by simp
  with assms fields show ?thesis
    by (auto simp: loopBody_def split: if_splits option.splits)
qed

lemma iterates_tokens:
  assumes "(iterates srv url hash)\<^sup>*\<^sup>* c0 c"
  shows "\<exists>ts. fetches (snd c) = fetches (snd c0) @ fetchesOf url hash ts \<and> [] \<notin> set ts"
  using assms
proof (induction rule: rtranclp_induct)
  case base
  show ?case by (rule exI [of _ "[]"]) (simp add: fetchesOf_def)
next
  case (step c c')
  then obtain ts where ts: "fetches (snd c) = fetches (snd c0) @ fetchesOf url hash ts"
    and ne: "[] \<notin> set ts"
    by blast
  obtain pc rcs d1 d2 tok w where c: "c = ((pc, rcs, d1, d2, tok), w)"
    by (metis prod_cases5 surj_pair)
  obtain pc' rcs' d1' d2' tok' w' where c': "c' = ((pc', rcs', d1', d2', tok'), w')"
    by (metis prod_cases5 surj_pair)
  from step.hyps(2) have "loopBody srv url hash ((pc, rcs, d1, d2, tok), w) = Inr ((pc', rcs', d1', d2', tok'), w')"
    by (simp add: iterates_def c c')
  from loopBody_continue [OF this]
  have "tok \<noteq> []" and "fetches w' = fetches w @ [(url, hash, tok)]"
    by simp_all
  with ts ne c c' show ?case
    by (intro exI [of _ "ts @ [tok]"]) (simp add: fetchesOf_def)
qed

lemma tokensFetched_fetchesOf:
  "fetches w' = fetches w @ fetchesOf url hash ts \<Longrightarrow> tokensFetched w w' = ts"
  by (simp add: tokensFetched_def fetchesOf_def comp_def)

lemma len_snoc: "len (xs @ [x]) = len xs + 1"
  by (simp add: len_def)

lemma pagesLoop_count:
  assumes "pagesLoop srv url hash c = Some y"
  shows "fst (fst c) = len (fst (snd (fst c))) \<longrightarrow> fst (fst y) = len (fst (snd (fst y)))"
proof (rule pagesLoop.raw_induct [OF _ assms])
  fix loop srv url hash c y
  assume 1: "\<And>srv url hash c y. loop srv url hash c = Some y \<Longrightarrow>
     fst (fst c) = len (fst (snd (fst c))) \<longrightarrow> fst (fst y) = len (fst (snd (fst y)))"
    "(case loopBody srv url hash c of Inl r \<Rightarrow> Some r | Inr c' \<Rightarrow> loop srv url hash c') = Some y"
  obtain pc rcs d1 d2 tok w where c: "c = ((pc, rcs, d1, d2, tok), w)"
    by (metis prod_cases5 surj_pair)
  show "fst (fst c) = len (fst (snd (fst c))) \<longrightarrow> fst (fst y) = len (fst (snd (fst y)))"
  proof (cases "loopBody srv url hash c")
    case (Inl r)
    with 1(2) have y: "y = r" by simp
    obtain pc' rcs' d1' d2' err w' where r: "r = ((pc', rcs', d1', d2', err), w')"
      by (metis prod_cases5 surj_pair)
    from loopBody_return [of srv url hash pc rcs d1 d2 tok w pc' rcs' d1' d2' err w'] Inl c r
    show ?thesis
      by (auto simp: y r c len_def)
  next
    case (Inr c')
    with 1(2) have run: "loop srv url hash c' = Some y" by simp
    obtain pc' rcs' d1' d2' tok' w' where c': "c' = ((pc', rcs', d1', d2', tok'), w')"
      by (metis prod_cases5 surj_pair)
    from loopBody_continue [of srv url hash pc rcs d1 d2 tok w pc' rcs' d1' d2' tok' w'] Inr c c'
    have "pc' = pc + 1" and "\<exists>n. rcs' = rcs @ [n]"
      by simp_all
    then have "pc = len rcs \<longrightarrow> pc' = len rcs'"
      by (auto simp: len_snoc)
    moreover from 1(1) [OF run] have "pc' = len rcs' \<longrightarrow> fst (fst y) = len (fst (snd (fst y)))"
      by (simp add: c')
    ultimately show ?thesis
      by (simp add: c)
  qed
qed

lemma sint_len:
  "length xs < 2 ^ 63 \<Longrightarrow> sint (len xs) = int (length xs)"
  by (simp add: len_def signed_of_nat signed_take_bit_int_eq_self)

lemma exchangeError_iff:
  "(exchangeError ex \<noteq> None) =
     (marshalErr ex \<noteq> None \<or> postErr ex \<noteq> None \<or> isl (decoded ex))"
  by (cases "marshalErr ex"; cases "postErr ex"; cases "decoded ex")
     (simp_all add: exchangeError_def)

lemma pagesLoop_reaches:
  assumes "pagesLoop srv url hash c = Some y"
  shows "\<exists>c'. (iterates srv url hash)\<^sup>*\<^sup>* c c' \<and> loopBody srv url hash c' = Inl y"
proof (rule pagesLoop.raw_induct [OF _ assms])
  fix loop srv url hash c y
  assume ih: "\<And>srv url hash c y. loop srv url hash c = Some y \<Longrightarrow>
      \<exists>c'. (iterates srv url hash)\<^sup>*\<^sup>* c c' \<and> loopBody srv url hash c' = Inl y"
    and eq: "(case loopBody srv url hash c of Inl r \<Rightarrow> Some r | Inr c' \<Rightarrow> loop srv url hash c') = Some y"
  show "\<exists>c'. (iterates srv url hash)\<^sup>*\<^sup>* c c' \<and> loopBody srv url hash c' = Inl y"
  proof (cases "loopBody srv url hash c")
    case (Inl r)
    with eq have "loopBody srv url hash c = Inl y"
      by simp
    then show ?thesis
      by blast
  next
    case (Inr c1)
    with eq have "loop srv url hash c1 = Some y"
      by simp
    from ih [OF this] obtain c' where "(iterates srv url hash)\<^sup>*\<^sup>* c1 c'"
      and "loopBody srv url hash c' = Inl y"
      by blast
    moreover from Inr have "iterates srv url hash c c1"
      by (simp add: iterates_def)
    ultimately show ?thesis
      by (blast intro: converse_rtranclp_into_rtranclp)
  qed
qed

lemma return_tokens:
  assumes "(iterates srv url hash)\<^sup>*\<^sup>* (l0, w) (l, w')"
    and "loopBody srv url hash (l, w') = Inl (r, w'')"
  shows "[] \<notin> set (tokensFetched w w'')"
proof -
  from iterates_tokens [OF assms(1)]
  obtain ts where ts: "fetches w' = fetches w @ fetchesOf url hash ts" and ne: "[] \<notin> set ts"
    by auto
  obtain pc rcs d1 d2 tok where l: "l = (pc, rcs, d1, d2, tok)"
    by (metis prod_cases5)
  obtain pc' rcs' d1' d2' err where r: "r = (pc', rcs', d1', d2', err)"
    by (metis prod_cases5)
  from loopBody_return [of srv url hash pc rcs d1 d2 tok w' pc' rcs' d1' d2' err w''] assms(2) l r
  consider "w'' = w'" | "tok \<noteq> []" "fetches w'' = fetches w' @ [(url, hash, tok)]"
    by auto
  then show ?thesis
  proof cases
    case 1
    with ts ne show ?thesis
      by (simp add: tokensFetched_fetchesOf)
  next
    case 2
    with ts have "fetches w'' = fetches w @ fetchesOf url hash (ts @ [tok])"
      by (simp add: fetchesOf_def)
    then have "tokensFetched w w'' = ts @ [tok]"
      by (rule tokensFetched_fetchesOf)
    with ne 2(1) show ?thesis
      by auto
  qed
qed

lemma scenario_run:
  "consumeAllPages scenarioServer ''http://localhost:8090'' ''h'' ''t'' emptyWorld =
     Some ((2, [3, 5], 14, 4, None),
           \<lparr>fetches = [(''http://localhost:8090'', ''h'', ''t''), (''http://localhost:8090'', ''h'', ''abc'')],
            posts = [(''http://localhost:8090/page'', ''application/json'', \<lparr>Hash = ''h'', Token = ''t''\<rparr>),
                     (''http://localhost:8090/page'', ''application/json'', \<lparr>Hash = ''h'', Token = ''abc''\<rparr>)],
            stdout = []\<rparr>)"
  unfolding consumeAllPages_def initLocals_def
  apply (subst pagesLoop.simps)
  apply (simp add: loopBody_def consumePage_def scenarioServer_def delivered_def samplePage_def
      emptyWorld_def len_def Let_def)
  apply (subst pagesLoop.simps)
  apply (simp add: loopBody_def consumePage_def scenarioServer_def delivered_def samplePage_def
      emptyWorld_def len_def Let_def)
  apply (subst pagesLoop.simps)
  apply (simp add: loopBody_def)
  done

lemma scenario_step:
  "loopBody scenarioServer ''http://localhost:8090'' ''h'' (initLocals ''t'', emptyWorld) =
     Inr ((1, [3], 7, 2, ''abc''),
          \<lparr>fetches = [(''http://localhost:8090'', ''h'', ''t'')],
           posts = [(''http://localhost:8090/page'', ''application/json'', \<lparr>Hash = ''h'', Token = ''t''\<rparr>)],
           stdout = []\<rparr>)"
  by (simp add: initLocals_def loopBody_def consumePage_def scenarioServer_def delivered_def
      samplePage_def emptyWorld_def len_def Let_def)

section \<open>Facts about printing\<close>

lemma foldl_plus:
  fixes a :: "64 word"
  shows "foldl (\<lambda>records recordCount. records + recordCount) a xs = a + sum_list xs"
  by (induction xs arbitrary: a) (simp_all add: add.assoc)

lemma sumRecords_sum_list: "sumRecords xs = sum_list xs"
  by (simp add: sumRecords_def foldl_plus)

lemma sint_sum_list:
  fixes xs :: "64 word list"
  assumes "\<forall>n \<in> set xs. 0 \<le> sint n" and "(\<Sum>n\<leftarrow>xs. sint n) < 2 ^ 63"
  shows "sint (sum_list xs) = (\<Sum>n\<leftarrow>xs. sint n)"
  using assms
proof (induction xs)
  case Nil
  show ?case by simp
next
  case (Cons x xs)
  from Cons.prems(1) have nn: "0 \<le> (\<Sum>n\<leftarrow>xs. sint n)"
    by (intro sum_list_nonneg) auto
  from Cons.prems have x0: "0 \<le> sint x"
    by simp
  from Cons.prems(2) have total: "sint x + (\<Sum>n\<leftarrow>xs. sint n) < 2 ^ 63"
    by simp
  with x0 have "(\<Sum>n\<leftarrow>xs. sint n) < 2 ^ 63"
    by linarith
  with Cons.IH Cons.prems(1) have ih: "sint (sum_list xs) = (\<Sum>n\<leftarrow>xs. sint n)"
    by simp
  have "sint (x + sum_list xs) = signed_take_bit 63 (sint x + sint (sum_list xs))"
    by (simp add: sint_word_ariths)
  also have "\<dots> = sint x + sint (sum_list xs)"
    using x0 nn total by (intro signed_take_bit_int_eq_self) (simp_all add: ih)
  finally show ?case
    by (simp add: ih)
qed

lemma Print_stdout: "stdout (Print s w) = stdout w @ s"
  by (simp add: Print_def)



lemma digitValue_digit:
  assumes "d < 10"
  shows "digitValue (''0123456789'' ! d) = d"
proof -
  from assms have "d \<in> {0, 1, 2, 3, 4, 5, 6, 7, 8, 9}"
    by auto
  then show ?thesis
    by (auto simp: digitValue_def)
qed

lemma decimalValue_snoc:
  "decimalValue (s @ [c]) = 10 * decimalValue s + digitValue c"
  by (simp add: decimalValue_def)

lemma decimalValue_decimal: "decimalValue (decimal n) = n"
proof (induction n rule: decimal.induct)
  case (1 n)
  show ?case
  proof (cases "n < 10")
    case True
    then have "decimal n = [''0123456789'' ! n]"
      by (subst decimal.simps) simp
    with True show ?thesis
      by (simp add: decimalValue_def digitValue_digit)
  next
    case False
    then have "decimal n = decimal (n div 10) @ [''0123456789'' ! (n mod 10)]"
      by (subst decimal.simps) simp
    moreover from 1 False have "decimalValue (decimal (n div 10)) = n div 10"
      by simp
    ultimately show ?thesis
      by (simp only: decimalValue_snoc digitValue_digit [of "n mod 10", simplified]) simp
  qed
qed

lemma decimalValue_formatInt:
  "0 \<le> sint i \<Longrightarrow> decimalValue (formatInt i) = nat (sint i)"
  by (simp add: formatInt_def decimalValue_decimal)

section \<open>The header is never read\<close>

lemma consumePage_sameButHeader:
  assumes "sameButHeader (srv1 (length (fetches w))) (srv2 (length (fetches w)))"
  shows "consumePage srv1 url hash token w = consumePage srv2 url hash token w"
  using assms
  by (cases "decoded (srv1 (length (fetches w)))"; cases "decoded (srv2 (length (fetches w)))")
     (simp_all add: sameButHeader_def consumePage_def Let_def split: option.splits)

lemma loopBody_sameButHeader:
  assumes "\<forall>i. sameButHeader (srv1 i) (srv2 i)"
  shows "loopBody srv1 url hash c = loopBody srv2 url hash c"
proof -
  obtain pc rcs d1 d2 tok w where c: "c = ((pc, rcs, d1, d2, tok), w)"
    by (metis prod_cases5 surj_pair)
  from assms have "consumePage srv1 url hash tok w = consumePage srv2 url hash tok w"
    by (intro consumePage_sameButHeader) simp
  then show ?thesis
    by (simp add: loopBody_def c)
qed

lemma pagesLoop_sameButHeader_Some:
  assumes "pagesLoop srv1 url hash c = Some y"
  shows "(\<forall>c. loopBody srv1 url hash c = loopBody srv2 url hash c) \<longrightarrow>
           pagesLoop srv2 url hash c = Some y"
proof (rule pagesLoop.raw_induct [OF _ assms])
  fix loop srv url hash c y
  assume ih: "\<And>srv url hash c y. loop srv url hash c = Some y \<Longrightarrow>
      (\<forall>c. loopBody srv url hash c = loopBody srv2 url hash c) \<longrightarrow> pagesLoop srv2 url hash c = Some y"
    and eq: "(case loopBody srv url hash c of Inl r \<Rightarrow> Some r | Inr c' \<Rightarrow> loop srv url hash c') = Some y"
  show "(\<forall>c. loopBody srv url hash c = loopBody srv2 url hash c) \<longrightarrow> pagesLoop srv2 url hash c = Some y"
  proof
    assume same: "\<forall>c. loopBody srv url hash c = loopBody srv2 url hash c"
    show "pagesLoop srv2 url hash c = Some y"
    proof (cases "loopBody srv url hash c")
      case (Inl r)
      with eq have "loopBody srv url hash c = Inl y"
        by simp
      moreover from same have "loopBody srv url hash c = loopBody srv2 url hash c"
        by blast
      ultimately have "loopBody srv2 url hash c = Inl y"
        by (simp only:)
      then show ?thesis
        by (subst pagesLoop.simps) simp
    next
      case (Inr c1)
      with eq have "loop srv url hash c1 = Some y"
        by simp
      from ih [OF this] same have "pagesLoop srv2 url hash c1 = Some y"
        by simp
      moreover from same have "loopBody srv url hash c = loopBody srv2 url hash c"
        by blast
      with Inr have "loopBody srv2 url hash c = Inr c1"
        by (simp only:)
      ultimately show ?thesis
        by (subst pagesLoop.simps) simp
    qed
  qed
qed

lemma pagesLoop_sameButHeader:
  assumes "\<forall>i. sameButHeader (srv1 i) (srv2 i)"
  shows "pagesLoop srv1 url hash c = pagesLoop srv2 url hash c"
proof -
  from assms have lr: "\<forall>c. loopBody srv1 url hash c = loopBody srv2 url hash c"
    by (simp add: loopBody_sameButHeader)
  then have rl: "\<forall>c. loopBody srv2 url hash c = loopBody srv1 url hash c"
    by simp
  show ?thesis
  proof (cases "pagesLoop srv1 url hash c")
    case (Some y)
    from pagesLoop_sameButHeader_Some [OF this] lr show ?thesis
      by (simp add: Some)
  next
    case None
    show ?thesis
    proof (cases "pagesLoop srv2 url hash c")
      case (Some y)
      from pagesLoop_sameButHeader_Some [OF this] rl have "pagesLoop srv1 url hash c = Some y"
        by simp
      with None show ?thesis
        by simp
    next
      case None': None
      with None show ?thesis
        by simp
    qed
  qed
qed

lemma header_noninterference:
  assumes "\<forall>i. sameButHeader (srv1 i) (srv2 i)"
  shows "main durationString srv1 commandLine w = main durationString srv2 commandLine w"
proof -
  have same: "consumeAllPages srv1 url hash firstToken w = consumeAllPages srv2 url hash firstToken w"
    for url hash firstToken
    unfolding consumeAllPages_def by (rule pagesLoop_sameButHeader [OF assms])
  show ?thesis
    unfolding main_def same ..
qed

section \<open>Sample runs\<close>

lemma malformed_run:
  "consumeAllPages malformedServer ''http://localhost:8090'' ''h'' ''t'' emptyWorld =
     Some ((0, [], 0, 0, Some (Error ''invalid character'')),
           \<lparr>fetches = [(''http://localhost:8090'', ''h'', ''t'')],
            posts = [(''http://localhost:8090/page'', ''application/json'', \<lparr>Hash = ''h'', Token = ''t''\<rparr>)],
            stdout = []\<rparr>)"
  unfolding consumeAllPages_def initLocals_def
  by (subst pagesLoop.simps)
     (simp add: loopBody_def consumePage_def malformedServer_def emptyWorld_def Let_def)

lemma sameButHeader_sample:
  "sameButHeader (scenarioServer i) (headedServer i)"
  by (simp add: sameButHeader_def scenarioServer_def headedServer_def delivered_def samplePage_def)

lemma header_noninterference_sample:
  "main durationString scenarioServer commandLine w = main durationString headedServer commandLine w"
  by (rule header_noninterference) (simp add: sameButHeader_sample)

section \<open>Claims\<close>

text \<open>
  C1. When the server delivers \<open>N \<ge> 1\<close> pages whose next token is non-empty on all but
  the last and empty on the last, and the first token is non-empty, \<^verbatim>\<open>consumeAllPages\<close>
  returns without error: the page count is \<open>N\<close> (as a Go \<^verbatim>\<open>int\<close>; its signed value is \<open>N\<close>
  whenever \<open>N\<close> fits), the record counts are those of the pages in fetch order, one per
  page, the durations are the sums over the pages, and exactly \<open>N\<close> pages were fetched.
\<close>

theorem consumeAllPages_counts_pages:
  assumes "firstToken \<noteq> []" and "pages \<noteq> []"
    and "served srv (length (fetches w)) pages"
    and "\<forall>r \<in> set (butlast pages). nextOf r \<noteq> []"
    and "nextOf (last pages) = []"
  shows "\<exists>pageCount w'.
           consumeAllPages srv url hash firstToken w =
             Some ((pageCount, map recordsOf pages,
                    sum_list (map (\<lambda>i. requestTime (srv (length (fetches w) + i))) [0..<length pages]),
                    sum_list (map (\<lambda>i. unmarshalTime (srv (length (fetches w) + i))) [0..<length pages]),
                    None), w')
           \<and> pageCount = len pages
           \<and> (length pages < 2 ^ 63 \<longrightarrow> sint pageCount = int (length pages))
           \<and> length (map recordsOf pages) = length pages
           \<and> fetches w' = fetches w @ fetchesOf url hash (firstToken # map nextOf (butlast pages))
           \<and> posts w' = posts w @ postsOf url hash (firstToken # map nextOf (butlast pages))"
proof -
  from assms(2) have split: "butlast pages @ [last pages] = pages"
    by simp
  from assms(3) have "served srv (length (fetches w)) (butlast pages @ [last pages])"
    by (simp only: split)
  from pagesLoop_pages [OF this assms(1) assms(4) assms(5), of url hash 0 "[]" 0 0]
  obtain w' where
    "pagesLoop srv url hash ((0, [], 0, 0, firstToken), w) =
       Some ((of_nat (length pages), map recordsOf pages,
              sum_list (map (\<lambda>i. requestTime (srv (length (fetches w) + i))) [0..<length pages]),
              sum_list (map (\<lambda>i. unmarshalTime (srv (length (fetches w) + i))) [0..<length pages]),
              None), w')"
    and "fetches w' = fetches w @ fetchesOf url hash (firstToken # map nextOf (butlast pages))"
    and "posts w' = posts w @ postsOf url hash (firstToken # map nextOf (butlast pages))"
    by (simp only: split add_0 append_Nil) blast
  then show ?thesis
    by (simp add: consumeAllPages_def initLocals_def len_def sint_len [unfolded len_def])
qed

theorem consumeAllPages_counts_pages_witness:
  "\<exists>w'. consumeAllPages scenarioServer ''http://localhost:8090'' ''h'' ''t'' emptyWorld =
          Some ((2, [3, 5], 14, 4, None), w')
        \<and> fetches w' = [(''http://localhost:8090'', ''h'', ''t''), (''http://localhost:8090'', ''h'', ''abc'')]"
  using consumeAllPages_counts_pages [of "''t''" "[samplePage [] 3 ''abc'', samplePage [] 5 []]"
      scenarioServer emptyWorld "''http://localhost:8090''" "''h''"]
  by (simp add: scenarioServer_def delivered_def samplePage_def emptyWorld_def nextOf_def
      recordsOf_def len_def fetchesOf_def) blast

text \<open>
  C2. When the pages delivered so far all carry a non-empty next token and the next page
  fetch fails with error \<open>e\<close>, \<^verbatim>\<open>consumeAllPages\<close> returns page count 0, no record
  counts, zero durations and the error \<open>e\<close>, whatever was accumulated before; the failing
  fetch is the last one made.
\<close>

theorem consumeAllPages_error_abandons:
  assumes "firstToken \<noteq> []"
    and "served srv (length (fetches w)) pages"
    and "\<forall>r \<in> set pages. nextOf r \<noteq> []"
    and "exchangeError (srv (length (fetches w) + length pages)) = Some e"
  shows "\<exists>w'. consumeAllPages srv url hash firstToken w = Some ((0, [], 0, 0, Some e), w')
           \<and> fetches w' = fetches w @ fetchesOf url hash (firstToken # map nextOf pages)
           \<and> length (fetches w') = length (fetches w) + length pages + 1
           \<and> stdout w' = stdout w"
proof -
  let ?toks = "firstToken # map nextOf pages"
  from pagesLoop_advance [OF assms(2) assms(1) assms(3), of url hash 0 "[]" 0 0]
  obtain w1 where run: "pagesLoop srv url hash ((0, [], 0, 0, firstToken), w) =
         pagesLoop srv url hash
           ((0 + of_nat (length pages), [] @ map recordsOf pages,
             0 + sum_list (map (\<lambda>i. requestTime (srv (length (fetches w) + i))) [0..<length pages]),
             0 + sum_list (map (\<lambda>i. unmarshalTime (srv (length (fetches w) + i))) [0..<length pages]),
             last ?toks), w1)"
     and f: "fetches w1 = fetches w @ fetchesOf url hash (butlast ?toks)"
     and s: "stdout w1 = stdout w"
    by blast
  have k: "length (fetches w1) = length (fetches w) + length pages"
    by (simp add: f fetchesOf_def)
  have tok: "last ?toks \<noteq> []"
    using assms(1) assms(3) by (cases pages rule: rev_cases) auto
  from assms(4) have failing: "exchangeError (srv (length (fetches w1))) = Some e"
    by (simp only: k)
  from tok failing pagesLoop_fail [where srv = srv and w = w1 and e = e and tok = "last ?toks"]
  obtain w' where fin: "pagesLoop srv url hash
           ((0 + of_nat (length pages), [] @ map recordsOf pages,
             0 + sum_list (map (\<lambda>i. requestTime (srv (length (fetches w) + i))) [0..<length pages]),
             0 + sum_list (map (\<lambda>i. unmarshalTime (srv (length (fetches w) + i))) [0..<length pages]),
             last ?toks), w1) = Some ((0, [], 0, 0, Some e), w')"
    and f': "fetches w' = fetches w1 @ fetchesOf url hash [last ?toks]"
    and s': "stdout w' = stdout w1"
    by blast
  have "butlast ?toks @ [last ?toks] = ?toks"
    by (rule append_butlast_last_id) simp
  then have "fetchesOf url hash (butlast ?toks) @ fetchesOf url hash [last ?toks] = fetchesOf url hash ?toks"
    unfolding fetchesOf_def by (metis map_append)
  with f f' have "fetches w' = fetches w @ fetchesOf url hash ?toks"
    by simp
  moreover from this have "length (fetches w') = length (fetches w) + length pages + 1"
    by (simp add: fetchesOf_def)
  moreover have "consumeAllPages srv url hash firstToken w = Some ((0, [], 0, 0, Some e), w')"
    by (simp only: consumeAllPages_def initLocals_def run fin)
  ultimately show ?thesis
    using s s' by auto
qed

theorem consumeAllPages_error_abandons_witness:
  "\<exists>w'. consumeAllPages failingServer ''http://localhost:8090'' ''h'' ''t'' emptyWorld =
          Some ((0, [], 0, 0, Some (Error ''connection refused'')), w')
        \<and> fetches w' = [(''http://localhost:8090'', ''h'', ''t''), (''http://localhost:8090'', ''h'', ''abc'')]"
  using consumeAllPages_error_abandons [of "''t''" failingServer emptyWorld "[samplePage [] 3 ''abc'']"
      "Error ''connection refused''" "''http://localhost:8090''" "''h''"]
  by (simp add: failingServer_def delivered_def samplePage_def emptyWorld_def nextOf_def
      exchangeError_def fetchesOf_def) blast

text \<open>
  C3. With an empty first token \<^verbatim>\<open>consumeAllPages\<close> returns page count 0, no record
  counts, zero durations and no error, and leaves the world as it was: no page is fetched.
\<close>

theorem consumeAllPages_empty_token:
  "consumeAllPages srv url hash [] w = Some ((0, [], 0, 0, None), w)"
  by (simp add: consumeAllPages_def initLocals_def pagesLoop_return)

text \<open>
  C5. \<^verbatim>\<open>consumePage\<close> returns an error exactly when marshalling, the HTTP call or the
  decoding fails, and every error comes with an empty next token, record count 0 and
  zero durations.
\<close>

theorem consumePage_error_zeroed:
  assumes "consumePage srv url hash token w =
             ((nextToken, recordCount, requestDuration, unMarshalDuration, err), w')"
  shows "(err \<noteq> None) =
           (marshalErr (srv (length (fetches w))) \<noteq> None
            \<or> postErr (srv (length (fetches w))) \<noteq> None
            \<or> isl (decoded (srv (length (fetches w)))))
         \<and> err = exchangeError (srv (length (fetches w)))
         \<and> (err \<noteq> None \<longrightarrow>
               nextToken = [] \<and> recordCount = 0 \<and> requestDuration = 0 \<and> unMarshalDuration = 0)"
proof -
  let ?ex = "srv (length (fetches w))"
  from consumePage_error [of srv url hash token w] assms
  have e: "err = exchangeError ?ex"
    by simp
  have z: "nextToken = [] \<and> recordCount = 0 \<and> requestDuration = 0 \<and> unMarshalDuration = 0"
    if "err \<noteq> None"
  proof -
    from that e obtain x where "exchangeError ?ex = Some x"
      by auto
    from this consumePage_failure [where srv = srv and w = w and e = x and url = url
        and hash = hash and token = token] assms
    show ?thesis
      by auto
  qed
  from e z exchangeError_iff [of ?ex] show ?thesis
    by simp
qed

theorem consumePage_error_zeroed_witness:
  "consumePage malformedServer ''http://localhost:8090'' ''h'' ''t'' emptyWorld =
     (([], 0, 0, 0, Some (Error ''invalid character'')),
      \<lparr>fetches = [(''http://localhost:8090'', ''h'', ''t'')],
       posts = [(''http://localhost:8090/page'', ''application/json'', \<lparr>Hash = ''h'', Token = ''t''\<rparr>)],
       stdout = []\<rparr>)
   \<and> requestTime (malformedServer 0) = 7"
  using consumePage_error_zeroed [of malformedServer "''http://localhost:8090''" "''h''" "''t''" emptyWorld
      "fst (fst (consumePage malformedServer ''http://localhost:8090'' ''h'' ''t'' emptyWorld))"
      "fst (snd (fst (consumePage malformedServer ''http://localhost:8090'' ''h'' ''t'' emptyWorld)))"
      "fst (snd (snd (fst (consumePage malformedServer ''http://localhost:8090'' ''h'' ''t'' emptyWorld))))"
      "fst (snd (snd (snd (fst (consumePage malformedServer ''http://localhost:8090'' ''h'' ''t'' emptyWorld)))))"
      "snd (snd (snd (snd (fst (consumePage malformedServer ''http://localhost:8090'' ''h'' ''t'' emptyWorld)))))"
      "snd (consumePage malformedServer ''http://localhost:8090'' ''h'' ''t'' emptyWorld)"]
  by (simp add: consumePage_def malformedServer_def emptyWorld_def Let_def)

text \<open>
  C4. \<^verbatim>\<open>consumePage\<close> is never called with an empty token: at every test of the loop
  condition that an execution of \<^verbatim>\<open>consumeAllPages\<close> reaches, and at every return, the
  tokens fetched since the start are all non-empty; and with an empty token the loop
  returns at once, with the world as it was.
\<close>

theorem empty_token_never_fetched:
  "((iterates srv url hash)\<^sup>*\<^sup>* (initLocals firstToken, w) (l, w') \<longrightarrow>
       [] \<notin> set (tokensFetched w w')
       \<and> (\<forall>r w''. loopBody srv url hash (l, w') = Inl (r, w'') \<longrightarrow> [] \<notin> set (tokensFetched w w'')))
   \<and> (consumeAllPages srv url hash firstToken w = Some (res, w1) \<longrightarrow>
        [] \<notin> set (tokensFetched w w1))
   \<and> loopBody srv url hash ((pc, rcs, d1, d2, []), w) = Inl ((pc, rcs, d1, d2, None), w)
   \<and> pagesLoop srv url hash ((pc, rcs, d1, d2, []), w) = Some ((pc, rcs, d1, d2, None), w)"
proof (intro conjI impI allI)
  assume reach: "(iterates srv url hash)\<^sup>*\<^sup>* (initLocals firstToken, w) (l, w')"
  from iterates_tokens [OF reach] show "[] \<notin> set (tokensFetched w w')"
    by (auto simp: tokensFetched_fetchesOf)
  fix r w''
  assume "loopBody srv url hash (l, w') = Inl (r, w'')"
  with reach show "[] \<notin> set (tokensFetched w w'')"
    by (rule return_tokens)
next
  assume "consumeAllPages srv url hash firstToken w = Some (res, w1)"
  then have "pagesLoop srv url hash (initLocals firstToken, w) = Some (res, w1)"
    by (simp add: consumeAllPages_def)
  from pagesLoop_reaches [OF this]
  obtain l w' where "(iterates srv url hash)\<^sup>*\<^sup>* (initLocals firstToken, w) (l, w')"
    and "loopBody srv url hash (l, w') = Inl (res, w1)"
    by auto
  then show "[] \<notin> set (tokensFetched w w1)"
    by (rule return_tokens)
next
  show "loopBody srv url hash ((pc, rcs, d1, d2, []), w) = Inl ((pc, rcs, d1, d2, None), w)"
    by (simp add: loopBody_def)
  show "pagesLoop srv url hash ((pc, rcs, d1, d2, []), w) = Some ((pc, rcs, d1, d2, None), w)"
    by (rule pagesLoop_return)
qed

theorem empty_token_never_fetched_witness:
  "(iterates scenarioServer ''http://localhost:8090'' ''h'')\<^sup>*\<^sup>*
     (initLocals ''t'', emptyWorld)
     ((1, [3], 7, 2, ''abc''),
      \<lparr>fetches = [(''http://localhost:8090'', ''h'', ''t'')],
       posts = [(''http://localhost:8090/page'', ''application/json'', \<lparr>Hash = ''h'', Token = ''t''\<rparr>)],
       stdout = []\<rparr>)
   \<and> [] \<notin> set (tokensFetched emptyWorld
         \<lparr>fetches = [(''http://localhost:8090'', ''h'', ''t'')],
          posts = [(''http://localhost:8090/page'', ''application/json'', \<lparr>Hash = ''h'', Token = ''t''\<rparr>)],
          stdout = []\<rparr>)
   \<and> consumeAllPages scenarioServer ''http://localhost:8090'' ''h'' ''t'' emptyWorld =
     Some ((2, [3, 5], 14, 4, None),
           \<lparr>fetches = [(''http://localhost:8090'', ''h'', ''t''), (''http://localhost:8090'', ''h'', ''abc'')],
            posts = [(''http://localhost:8090/page'', ''application/json'', \<lparr>Hash = ''h'', Token = ''t''\<rparr>),
                     (''http://localhost:8090/page'', ''application/json'', \<lparr>Hash = ''h'', Token = ''abc''\<rparr>)],
            stdout = []\<rparr>)
   \<and> tokensFetched emptyWorld
     \<lparr>fetches = [(''http://localhost:8090'', ''h'', ''t''), (''http://localhost:8090'', ''h'', ''abc'')],
      posts = [(''http://localhost:8090/page'', ''application/json'', \<lparr>Hash = ''h'', Token = ''t''\<rparr>),
               (''http://localhost:8090/page'', ''application/json'', \<lparr>Hash = ''h'', Token = ''abc''\<rparr>)],
      stdout = []\<rparr> = [''t'', ''abc'']"
proof -
  let ?w1 = "\<lparr>fetches = [(''http://localhost:8090'', ''h'', ''t'')],
          posts = [(''http://localhost:8090/page'', ''application/json'', \<lparr>Hash = ''h'', Token = ''t''\<rparr>)],
          stdout = []\<rparr>"
  let ?w2 = "\<lparr>fetches = [(''http://localhost:8090'', ''h'', ''t''), (''http://localhost:8090'', ''h'', ''abc'')],
      posts = [(''http://localhost:8090/page'', ''application/json'', \<lparr>Hash = ''h'', Token = ''t''\<rparr>),
               (''http://localhost:8090/page'', ''application/json'', \<lparr>Hash = ''h'', Token = ''abc''\<rparr>)],
      stdout = []\<rparr>"
  have reach: "(iterates scenarioServer ''http://localhost:8090'' ''h'')\<^sup>*\<^sup>*
          (initLocals ''t'', emptyWorld) ((1, [3], 7, 2, ''abc''), ?w1)"
    by (rule r_into_rtranclp) (simp add: iterates_def scenario_step)
  from empty_token_never_fetched [of scenarioServer "''http://localhost:8090''" "''h''" "''t''"
      emptyWorld "(1, [3], 7, 2, ''abc'')" ?w1 "(2, [3, 5], 14, 4, None)" ?w2] reach scenario_run
  have "[] \<notin> set (tokensFetched emptyWorld ?w1) \<and> [] \<notin> set (tokensFetched emptyWorld ?w2)"
    by simp
  moreover have "tokensFetched emptyWorld ?w2 = [''t'', ''abc'']"
    by (simp add: tokensFetched_def emptyWorld_def)
  ultimately show ?thesis
    using reach scenario_run by simp
qed

text \<open>
  C6. In the success case the \<^verbatim>\<open>Records\<close> line shows the sum of the entries of
  \<^verbatim>\<open>recordCounts\<close>: the sum in Go's \<^verbatim>\<open>int\<close> arithmetic, which is the sum of the integers
  whenever the entries are non-negative (as record counts are) and their sum fits; the
  digits printed then read back as that sum.
\<close>

theorem records_line_is_sum:
  "sumRecords recordCounts = sum_list recordCounts
   \<and> stdout (printConsumption durationString hash firstToken pageCount recordCounts d1 d2 None w) =
       stdout w @ ''Hash: '' @ hash @ '', First Token: '' @ firstToken @ newline
         @ ''  Pages: '' @ formatInt pageCount @ newline
         @ ''  Records: '' @ formatInt (sum_list recordCounts) @ newline
         @ ''  Duration to retrieve pages: '' @ durationString d1 @ newline
         @ ''  Duration to unmarshal pages: '' @ durationString d2 @ newline
   \<and> ((\<forall>n \<in> set recordCounts. 0 \<le> sint n) \<and> (\<Sum>n\<leftarrow>recordCounts. sint n) < 2 ^ 63 \<longrightarrow>
        sint (sum_list recordCounts) = (\<Sum>n\<leftarrow>recordCounts. sint n)
        \<and> decimalValue (formatInt (sum_list recordCounts)) = nat (\<Sum>n\<leftarrow>recordCounts. sint n))"
proof (intro conjI impI)
  show "sumRecords recordCounts = sum_list recordCounts"
    by (rule sumRecords_sum_list)
  show "stdout (printConsumption durationString hash firstToken pageCount recordCounts d1 d2 None w) =
       stdout w @ ''Hash: '' @ hash @ '', First Token: '' @ firstToken @ newline
         @ ''  Pages: '' @ formatInt pageCount @ newline
         @ ''  Records: '' @ formatInt (sum_list recordCounts) @ newline
         @ ''  Duration to retrieve pages: '' @ durationString d1 @ newline
         @ ''  Duration to unmarshal pages: '' @ durationString d2 @ newline"
    by (simp add: sumRecords_sum_list printConsumption_def Let_def Print_stdout)
next
  assume fits: "(\<forall>n \<in> set recordCounts. 0 \<le> sint n) \<and> (\<Sum>n\<leftarrow>recordCounts. sint n) < 2 ^ 63"
  then show exact: "sint (sum_list recordCounts) = (\<Sum>n\<leftarrow>recordCounts. sint n)"
    by (simp add: sint_sum_list)
  from fits have "0 \<le> (\<Sum>n\<leftarrow>recordCounts. sint n)"
    by (intro sum_list_nonneg) auto
  with exact show "decimalValue (formatInt (sum_list recordCounts)) = nat (\<Sum>n\<leftarrow>recordCounts. sint n)"
    by (simp add: decimalValue_formatInt)
qed

theorem records_line_is_sum_witness:
  "0 \<le> sint (3 :: go_int) \<and> 0 \<le> sint (5 :: go_int)
   \<and> (\<Sum>n\<leftarrow>[3 :: go_int, 5]. sint n) < 2 ^ 63
   \<and> sumRecords [3, 5] = 8
   \<and> sint (sum_list [3 :: go_int, 5]) = 8
   \<and> decimalValue (formatInt (sum_list [3 :: go_int, 5])) = 8
   \<and> stdout (printConsumption nanoseconds ''h'' ''t'' 2 [3, 5] 14 4 None emptyWorld) =
       ''Hash: h, First Token: t'' @ newline
         @ ''  Pages: 2'' @ newline
         @ ''  Records: 8'' @ newline
         @ ''  Duration to retrieve pages: 14ns'' @ newline
         @ ''  Duration to unmarshal pages: 4ns'' @ newline"
  using records_line_is_sum [of "[3, 5]" nanoseconds "''h''" "''t''" 2 14 4 emptyWorld]
  by (simp add: formatInt_def decimal.simps nanoseconds_def emptyWorld_def)


text \<open>
  C8, as amended. On a command line that \<^verbatim>\<open>flag.Parse()\<close> accepts, when the hash or the
  token flag is absent or empty, or the url flag is given as the empty string, \<^verbatim>\<open>main\<close>
  ends in \<^verbatim>\<open>log.Fatal("invalid arguments")\<close>, with a non-zero exit status and the world
  as it was: no HTTP call, no page fetch. On a command line that \<^verbatim>\<open>flag.Parse()\<close> does
  not accept the program ends inside the parser, with status 0 or 2 and the world as it
  was, and never reaches the check of the arguments.
\<close>

theorem main_invalid_arguments:
  assumes "args ''hash'' = None \<or> args ''hash'' = Some [] \<or> args ''token'' = None
           \<or> args ''token'' = Some [] \<or> args ''url'' = Some []"
  shows "main durationString srv (Accepted args) w = Some (Fatal ''invalid arguments'', w)
         \<and> exitStatus (Fatal ''invalid arguments'') \<noteq> 0
         \<and> main durationString srv HelpRequested w = Some (FlagExit 0, w)
         \<and> main durationString srv Refused w = Some (FlagExit 2, w)"
  using assms
  by (auto simp: main_def flagString_def Let_def)

theorem main_invalid_arguments_witness:
  "emptyHashArgs ''hash'' = Some []
   \<and> main nanoseconds scenarioServer (Accepted emptyHashArgs) emptyWorld =
       Some (Fatal ''invalid arguments'', emptyWorld)
   \<and> posts emptyWorld = [] \<and> fetches emptyWorld = []
   \<and> exitStatus (Fatal ''invalid arguments'') = 1"
  using main_invalid_arguments [of emptyHashArgs nanoseconds scenarioServer emptyWorld]
  by (simp add: emptyHashArgs_def emptyWorld_def)

text \<open>
  C8 as stated fails in two ways. With \<^verbatim>\<open>-hash h -token t\<close> and no url flag, the url has
  its default, \<^verbatim>\<open>http://localhost:8090\<close>, and the program goes on to fetch. With
  \<^verbatim>\<open>-h\<close> alone, where url, hash and token are all missing, the program ends inside
  \<^verbatim>\<open>flag.Parse()\<close> with status 0 and without the message \<^verbatim>\<open>invalid arguments\<close>.
\<close>

theorem main_missing_url_counterexample:
  "hashTokenArgs ''url'' = None
   \<and> main nanoseconds malformedServer (Accepted hashTokenArgs) emptyWorld =
       Some (Returned,
             \<lparr>fetches = [(''http://localhost:8090'', ''h'', ''t'')],
              posts = [(''http://localhost:8090/page'', ''application/json'', \<lparr>Hash = ''h'', Token = ''t''\<rparr>)],
              stdout = ''Hash: h, First Token: t'' @ newline @ ''Error: invalid character'' @ newline\<rparr>)
   \<and> main nanoseconds malformedServer HelpRequested emptyWorld = Some (FlagExit 0, emptyWorld)
   \<and> exitStatus (FlagExit 0) = 0"
  by (simp add: main_def flagString_def hashTokenArgs_def Let_def malformed_run
      printConsumption_def Print_def)

text \<open>
  C9. Whenever \<^verbatim>\<open>consumeAllPages\<close> returns, with or without an error, the page count
  equals \<^verbatim>\<open>len(recordCounts)\<close>; every pass through the loop body keeps this equality.
\<close>

theorem pageCount_is_len_recordCounts:
  "(consumeAllPages srv url hash firstToken w = Some ((pageCount, recordCounts, d1, d2, err), w') \<longrightarrow>
      pageCount = len recordCounts)
   \<and> (loopBody srv url hash ((pc, rcs, a, b, tok), w0) = Inr ((pc', rcs', a', b', tok'), w1)
        \<and> pc = len rcs \<longrightarrow> pc' = len rcs')
   \<and> (loopBody srv url hash ((pc, rcs, a, b, tok), w0) = Inl ((pc', rcs', a', b', err'), w1)
        \<and> pc = len rcs \<longrightarrow> pc' = len rcs')"
proof (intro conjI impI)
  assume "consumeAllPages srv url hash firstToken w = Some ((pageCount, recordCounts, d1, d2, err), w')"
  then have "pagesLoop srv url hash ((0, [], 0, 0, firstToken), w) =
      Some ((pageCount, recordCounts, d1, d2, err), w')"
    by (simp add: consumeAllPages_def initLocals_def)
  from pagesLoop_count [OF this] show "pageCount = len recordCounts"
    by (simp add: len_def)
next
  assume "loopBody srv url hash ((pc, rcs, a, b, tok), w0) = Inr ((pc', rcs', a', b', tok'), w1)
        \<and> pc = len rcs"
  with loopBody_continue [of srv url hash pc rcs a b tok w0 pc' rcs' a' b' tok' w1]
  show "pc' = len rcs'"
    by (auto simp: len_snoc)
next
  assume "loopBody srv url hash ((pc, rcs, a, b, tok), w0) = Inl ((pc', rcs', a', b', err'), w1)
        \<and> pc = len rcs"
  with loopBody_return [of srv url hash pc rcs a b tok w0 pc' rcs' a' b' err' w1]
  show "pc' = len rcs'"
    by (auto simp: len_def)
qed

theorem pageCount_is_len_recordCounts_witness:
  "consumeAllPages scenarioServer ''http://localhost:8090'' ''h'' ''t'' emptyWorld =
     Some ((2, [3, 5], 14, 4, None),
           \<lparr>fetches = [(''http://localhost:8090'', ''h'', ''t''), (''http://localhost:8090'', ''h'', ''abc'')],
            posts = [(''http://localhost:8090/page'', ''application/json'', \<lparr>Hash = ''h'', Token = ''t''\<rparr>),
                     (''http://localhost:8090/page'', ''application/json'', \<lparr>Hash = ''h'', Token = ''abc''\<rparr>)],
            stdout = []\<rparr>)
   \<and> (2 :: go_int) = len [3 :: go_int, 5]
   \<and> loopBody scenarioServer ''http://localhost:8090'' ''h'' ((0, [], 0, 0, ''t''), emptyWorld) =
       Inr ((1, [3], 7, 2, ''abc''),
            \<lparr>fetches = [(''http://localhost:8090'', ''h'', ''t'')],
             posts = [(''http://localhost:8090/page'', ''application/json'', \<lparr>Hash = ''h'', Token = ''t''\<rparr>)],
             stdout = []\<rparr>)
   \<and> (0 :: go_int) = len ([] :: go_int list) \<and> (1 :: go_int) = len [3 :: go_int]
   \<and> loopBody malformedServer ''http://localhost:8090'' ''h'' ((0, [], 0, 0, ''t''), emptyWorld) =
       Inl ((0, [], 0, 0, Some (Error ''invalid character'')),
            \<lparr>fetches = [(''http://localhost:8090'', ''h'', ''t'')],
             posts = [(''http://localhost:8090/page'', ''application/json'', \<lparr>Hash = ''h'', Token = ''t''\<rparr>)],
             stdout = []\<rparr>)"
proof -
  let ?u = "''http://localhost:8090''"
  let ?w1 = "\<lparr>fetches = [(?u, ''h'', ''t'')],
          posts = [(''http://localhost:8090/page'', ''application/json'', \<lparr>Hash = ''h'', Token = ''t''\<rparr>)],
          stdout = []\<rparr>"
  let ?w2 = "\<lparr>fetches = [(?u, ''h'', ''t''), (?u, ''h'', ''abc'')],
      posts = [(''http://localhost:8090/page'', ''application/json'', \<lparr>Hash = ''h'', Token = ''t''\<rparr>),
               (''http://localhost:8090/page'', ''application/json'', \<lparr>Hash = ''h'', Token = ''abc''\<rparr>)],
      stdout = []\<rparr>"
  have stop: "loopBody malformedServer ?u ''h'' ((0, [], 0, 0, ''t''), emptyWorld) =
      Inl ((0, [], 0, 0, Some (Error ''invalid character'')), ?w1)"
    by (simp add: loopBody_def consumePage_def malformedServer_def emptyWorld_def Let_def)
  have go: "loopBody scenarioServer ?u ''h'' ((0, [], 0, 0, ''t''), emptyWorld) =
      Inr ((1, [3], 7, 2, ''abc''), ?w1)"
    using scenario_step by (simp add: initLocals_def)
  have len0: "(0 :: go_int) = len ([] :: go_int list)"
    by (simp add: len_def)
  from pageCount_is_len_recordCounts [of scenarioServer ?u "''h''" "''t''" emptyWorld
      2 "[3, 5]" 14 4 None ?w2 0 "[]" 0 0 "''t''" emptyWorld 1 "[3]" 7 2 "''abc''" ?w1] scenario_run go len0
  have "(2 :: go_int) = len [3 :: go_int, 5] \<and> (1 :: go_int) = len [3 :: go_int]"
    by simp
  with scenario_run go stop len0 show ?thesis
    by simp
qed

text \<open>
  C10. Two responses that decode to result sets with the same next token and the same
  records, whatever their headers, make \<^verbatim>\<open>consumePage\<close> return the same next token and
  the same record count, and leave the same world.
\<close>

theorem header_never_read:
  assumes "served srv1 (length (fetches w)) [r1]"
    and "served srv2 (length (fetches w)) [r2]"
    and "NextToken (Meta r1) = NextToken (Meta r2)"
    and "Records (Data r1) = Records (Data r2)"
  shows "\<exists>w'. consumePage srv1 url hash token w =
                ((NextToken (Meta r1), len (Records (Data r1)),
                  requestTime (srv1 (length (fetches w))), unmarshalTime (srv1 (length (fetches w))),
                  None), w')
            \<and> consumePage srv2 url hash token w =
                ((NextToken (Meta r1), len (Records (Data r1)),
                  requestTime (srv2 (length (fetches w))), unmarshalTime (srv2 (length (fetches w))),
                  None), w')"
  using assms
  by (simp add: consumePage_success nextOf_def recordsOf_def)

theorem header_never_read_witness:
  "Header (Data (samplePage [] 3 ''abc'')) \<noteq>
     Header (Data (samplePage [\<lparr>Name = ''id'', Type = ''int'', Position = 0\<rparr>] 3 ''abc''))
   \<and> consumePage scenarioServer ''http://localhost:8090'' ''h'' ''t'' emptyWorld =
       consumePage headedServer ''http://localhost:8090'' ''h'' ''t'' emptyWorld
   \<and> fst (consumePage headedServer ''http://localhost:8090'' ''h'' ''t'' emptyWorld) =
       (''abc'', 3, 7, 2, None)"
  using header_never_read [of scenarioServer emptyWorld "samplePage [] 3 ''abc''" headedServer
      "samplePage [\<lparr>Name = ''id'', Type = ''int'', Position = 0\<rparr>] 3 ''abc''"
      "''http://localhost:8090''" "''h''" "''t''"]
  by (simp add: scenarioServer_def headedServer_def delivered_def samplePage_def emptyWorld_def len_def)
     (auto simp: samplePage_def)

end
